theory Spec2Isabelle
  imports Main "HOL-Library.Word" "HOL-Library.AList" "HOL-Library.Sublist"
begin

section \<open>IThreadWorker.h: worker state, control flags, hooks\<close>

datatype ThreadState = STOPPED | RUNNING | PAUSED | FINISHED

text \<open>
  What one invocation of a user-supplied \<^verbatim>\<open>std::function\<close> does: it returns, it throws
  an exception derived from \<^verbatim>\<open>std::exception\<close> (with its \<^verbatim>\<open>what()\<close> text), or it
  throws a value of another type, which no handler of the framework catches.
\<close>

datatype outcome = Returns | Throws string | ThrowsOther

text \<open>
  A C++ \<^verbatim>\<open>int\<close> is a 32-bit word, read as a signed value (\<open>sint\<close>) where the code
  compares; incrementing wraps around, also in the \<^verbatim>\<open>++i\<close> of \<^verbatim>\<open>LoopWorker::run\<close>, where
  the standard leaves the overflow undefined and the compiled code wraps. The intervals
  (\<^verbatim>\<open>std::chrono::milliseconds\<close>) are \<open>int\<close>; no action depends on them.
\<close>

type_synonym int32 = "32 word"

text \<open>
  The members the four classes of BaseWorkers.h add to the base class. A callback that is
  invoked repeatedly is given by its outcome at each value of the counter (or loop index)
  it is invoked at; a null \<^verbatim>\<open>std::function\<close> is \<open>None\<close>.
  \<^item> \<open>MonitorWorker interval_ callback_ enabled_ iterationCount_\<close>
  \<^item> \<open>TaskWorker task_ description_ completed_\<close>
  \<^item> \<open>TimerWorker interval_ callback_ maxTriggers_ triggerCount_\<close>
  \<^item> \<open>LoopWorker loopCount_ loopCallback_ startCallback_ endCallback_ currentLoop_\<close>
\<close>

datatype derived =
    MonitorWorker int "(int32 \<Rightarrow> outcome) option" bool int32
  | TaskWorker "outcome option" string bool
  | TimerWorker int "(int32 \<Rightarrow> outcome) option" int32 int32
  | LoopWorker int32 "(int32 \<Rightarrow> outcome) option" "outcome option" "outcome option" int32

text \<open>
  The base class: \<open>state\<close>, \<open>shouldStop\<close> and \<open>shouldPause\<close> are its three atomics.
  \<open>errors\<close> is not a member of the class: it records the arguments of the calls of
  \<^verbatim>\<open>onError\<close>, whose body is empty, so that the calls can be observed.
\<close>

record IThreadWorker =
  state :: ThreadState
  shouldStop :: bool
  shouldPause :: bool
  errors :: "string list"
  derived :: derived

definition getState :: "IThreadWorker \<Rightarrow> ThreadState" where
  "getState w = state w"

definition isRunning :: "IThreadWorker \<Rightarrow> bool" where
  "isRunning w = (state w = RUNNING)"

definition isPaused :: "IThreadWorker \<Rightarrow> bool" where
  "isPaused w = (state w = PAUSED)"

definition isStopped :: "IThreadWorker \<Rightarrow> bool" where
  "isStopped w = (state w = STOPPED)"

definition isFinished :: "IThreadWorker \<Rightarrow> bool" where
  "isFinished w = (state w = FINISHED)"

definition setState :: "ThreadState \<Rightarrow> IThreadWorker \<Rightarrow> IThreadWorker" where
  "setState newState w = w\<lparr>state := newState\<rparr>"

definition getType :: "IThreadWorker \<Rightarrow> string" where
  "getType w =
     (case derived w of
        MonitorWorker interval cb enabled n \<Rightarrow> ''MonitorWorker''
      | TaskWorker task description completed \<Rightarrow> ''TaskWorker''
      | TimerWorker interval cb maxTriggers n \<Rightarrow> ''TimerWorker''
      | LoopWorker loopCount cb startCb endCb cur \<Rightarrow> ''LoopWorker'')"

text \<open>
  The hooks. The base class gives each an empty body. Of the four classes, only
  \<^verbatim>\<open>MonitorWorker::onStop\<close> writes a member (\<open>enabled_\<close>); the other overrides
  (\<^verbatim>\<open>onStart\<close> and \<^verbatim>\<open>onStop\<close> of TaskWorker and TimerWorker) only print, and console
  output is not modelled. No class overrides \<^verbatim>\<open>onPause\<close>, \<^verbatim>\<open>onResume\<close>,
  \<^verbatim>\<open>onInitialize\<close> or \<^verbatim>\<open>onError\<close>.
\<close>

definition onInitialize :: "IThreadWorker \<Rightarrow> IThreadWorker" where
  "onInitialize w = w"

definition onStart :: "IThreadWorker \<Rightarrow> IThreadWorker" where
  "onStart w = w"

definition onStop :: "IThreadWorker \<Rightarrow> IThreadWorker" where
  "onStop w =
     (case derived w of
        MonitorWorker interval cb enabled n \<Rightarrow> w\<lparr>derived := MonitorWorker interval cb False n\<rparr>
      | TaskWorker task description completed \<Rightarrow> w
      | TimerWorker interval cb maxTriggers n \<Rightarrow> w
      | LoopWorker loopCount cb startCb endCb cur \<Rightarrow> w)"

definition onPause :: "IThreadWorker \<Rightarrow> IThreadWorker" where
  "onPause w = w"

definition onResume :: "IThreadWorker \<Rightarrow> IThreadWorker" where
  "onResume w = w"

definition onError :: "string \<Rightarrow> IThreadWorker \<Rightarrow> IThreadWorker" where
  "onError error w = w\<lparr>errors := errors w @ [error]\<rparr>"

text \<open>
  \<^verbatim>\<open>shouldContinue\<close>. One evaluation of the loop condition
  \<^verbatim>\<open>shouldPause.load() && !shouldStop.load()\<close>, followed, when it is false, by the
  \<^verbatim>\<open>return !shouldStop.load()\<close>, is taken as one reading of the flags: \<open>None\<close> means
  that the body of the loop runs (a sleep of 100 ms, after which the condition is
  evaluated again), \<open>Some r\<close> that the function returns \<open>r\<close>.
\<close>

definition shouldContinue_poll :: "IThreadWorker \<Rightarrow> bool option" where
  "shouldContinue_poll w =
     (if shouldPause w \<and> \<not> shouldStop w then None else Some (\<not> shouldStop w))"

text \<open>
  The whole call. The flags are atomics that other threads write while the call sleeps, so
  the call is a function of what the worker holds at each evaluation of the loop condition,
  in order. The result is the returned value together with the milliseconds slept;
  \<open>None\<close> means that the call is still in its loop after the readings given.
\<close>

fun shouldContinue :: "IThreadWorker list \<Rightarrow> (bool \<times> nat) option" where
  "shouldContinue [] = None"
| "shouldContinue (w # ws) =
     (case shouldContinue_poll w of
        None \<Rightarrow> map_option (\<lambda>(r, ms). (r, 100 + ms)) (shouldContinue ws)
      | Some r \<Rightarrow> Some (r, 0))"

section \<open>BaseWorkers.h: constructors\<close>

definition new_IThreadWorker :: "derived \<Rightarrow> IThreadWorker" where
  "new_IThreadWorker d =
     \<lparr>state = STOPPED, shouldStop = False, shouldPause = False, errors = [], derived = d\<rparr>"

definition new_MonitorWorker :: "int \<Rightarrow> (int32 \<Rightarrow> outcome) option \<Rightarrow> IThreadWorker" where
  "new_MonitorWorker interval callback = new_IThreadWorker (MonitorWorker interval callback True 0)"

definition new_TaskWorker :: "outcome option \<Rightarrow> string \<Rightarrow> IThreadWorker" where
  "new_TaskWorker task description =
     new_IThreadWorker
       (TaskWorker task (if description = [] then ''Unnamed Task'' else description) False)"

definition new_TimerWorker ::
  "int \<Rightarrow> (int32 \<Rightarrow> outcome) option \<Rightarrow> int32 \<Rightarrow> IThreadWorker" where
  "new_TimerWorker interval callback maxTriggers =
     new_IThreadWorker (TimerWorker interval callback maxTriggers 0)"

definition new_LoopWorker ::
  "int32 \<Rightarrow> (int32 \<Rightarrow> outcome) option \<Rightarrow> outcome option \<Rightarrow> outcome option \<Rightarrow> IThreadWorker" where
  "new_LoopWorker loopCount loopCallback startCallback endCallback =
     new_IThreadWorker (LoopWorker loopCount loopCallback startCallback endCallback 0)"

section \<open>BaseWorkers.h: the bodies of run(), one action at a time\<close>

text \<open>
  A worker runs on a thread of its own while the controlling thread calls its hooks, so
  the thread started by \<^verbatim>\<open>ThreadManager::startWorker\<close> is modelled by its position in
  the code and a function that performs the action at that position. The positions:
  \<^item> in the thread's lambda: \<open>Find\<close> (\<^verbatim>\<open>threads_.find(threadId)\<close>), \<open>StoreRunning\<close>
    (\<^verbatim>\<open>info.running.store(true)\<close>), \<open>OnStart\<close>, \<open>Catch e\<close> (the handler of the lambda,
    with \<^verbatim>\<open>e.what()\<close>), \<open>StoreNotRunning\<close> (\<^verbatim>\<open>info.running.store(false)\<close>),
    \<open>Notify\<close> (\<^verbatim>\<open>condition_.notify_all()\<close>), \<open>Exited\<close> (the lambda has returned) and
    \<open>Terminated\<close> (an exception that no handler catches has left the lambda:
    \<^verbatim>\<open>std::terminate\<close>);
  \<^item> in every \<^verbatim>\<open>run()\<close>: \<open>RunEnter\<close> (\<^verbatim>\<open>setState(ThreadState::RUNNING)\<close>) and \<open>RunLeave\<close>
    (\<^verbatim>\<open>setState(ThreadState::FINISHED)\<close>, then the return);
  \<^item> the others are the statements of one class's \<^verbatim>\<open>run()\<close>; the positions named
    \<open>...ShouldContinue\<close> are inside a call of \<^verbatim>\<open>shouldContinue()\<close>, and the argument
    of the LoopWorker positions is the local variable \<open>i\<close>.
\<close>

datatype pc =
    Find | StoreRunning | OnStart
  | RunEnter
  | MonitorShouldContinue | MonitorEnabled | MonitorCount | MonitorCall | MonitorSleep
  | TaskCall
  | TimerShouldContinue | TimerCheck | TimerSleep | TimerShouldContinue2 | TimerCount | TimerCall
  | LoopStart | LoopTest int32 | LoopShouldContinue int32 | LoopStore int32 | LoopCall int32
  | LoopEnd
  | RunLeave
  | Catch string | StoreNotRunning | Notify | Exited | Terminated

text \<open>Invoking a callback; a null callback is not invoked.\<close>

definition invoke :: "(int32 \<Rightarrow> outcome) option \<Rightarrow> int32 \<Rightarrow> outcome" where
  "invoke cb n = (case cb of None \<Rightarrow> Returns | Some f \<Rightarrow> f n)"

definition invoke_once :: "outcome option \<Rightarrow> outcome" where
  "invoke_once cb = (case cb of None \<Rightarrow> Returns | Some r \<Rightarrow> r)"

text \<open>
  A call outside every \<^verbatim>\<open>try\<close> block of \<^verbatim>\<open>run()\<close>: an exception leaves \<^verbatim>\<open>run()\<close>, and the
  handler of the thread's lambda catches it when it is a \<^verbatim>\<open>std::exception\<close>.
\<close>

definition unguarded :: "outcome \<Rightarrow> pc \<Rightarrow> pc" where
  "unguarded r k = (case r of Returns \<Rightarrow> k | Throws e \<Rightarrow> Catch e | ThrowsOther \<Rightarrow> Terminated)"

text \<open>
  A call inside \<^verbatim>\<open>try { ... } catch (const std::exception& e) { onError(msg + e.what()); }\<close>.
\<close>

definition guarded :: "string \<Rightarrow> outcome \<Rightarrow> pc \<Rightarrow> IThreadWorker \<Rightarrow> pc \<times> IThreadWorker" where
  "guarded msg r k w =
     (case r of
        Returns \<Rightarrow> (k, w)
      | Throws e \<Rightarrow> (k, onError (msg @ e) w)
      | ThrowsOther \<Rightarrow> (Terminated, w))"

text \<open>The loop test \<^verbatim>\<open>shouldContinue()\<close> at position \<open>here\<close>.\<close>

definition in_shouldContinue :: "pc \<Rightarrow> pc \<Rightarrow> pc \<Rightarrow> IThreadWorker \<Rightarrow> pc" where
  "in_shouldContinue here yes no w =
     (case shouldContinue_poll w of None \<Rightarrow> here | Some r \<Rightarrow> if r then yes else no)"

fun MonitorWorker_run ::
  "int \<Rightarrow> (int32 \<Rightarrow> outcome) option \<Rightarrow> bool \<Rightarrow> int32 \<Rightarrow> pc \<Rightarrow> IThreadWorker \<Rightarrow>
     pc \<times> IThreadWorker" where
  "MonitorWorker_run interval cb enabled n RunEnter w = (MonitorShouldContinue, setState RUNNING w)"
| "MonitorWorker_run interval cb enabled n MonitorShouldContinue w =
     (in_shouldContinue MonitorShouldContinue MonitorEnabled RunLeave w, w)"
| "MonitorWorker_run interval cb enabled n MonitorEnabled w =
     (if enabled then MonitorCount else RunLeave, w)"
| "MonitorWorker_run interval cb enabled n MonitorCount w =
     (MonitorCall, w\<lparr>derived := MonitorWorker interval cb enabled (n + 1)\<rparr>)"
| "MonitorWorker_run interval cb enabled n MonitorCall w = (unguarded (invoke cb n) MonitorSleep, w)"
| "MonitorWorker_run interval cb enabled n MonitorSleep w = (MonitorShouldContinue, w)"
| "MonitorWorker_run interval cb enabled n RunLeave w = (StoreNotRunning, setState FINISHED w)"
| "MonitorWorker_run interval cb enabled n p w = (p, w)"

fun TaskWorker_run ::
  "outcome option \<Rightarrow> string \<Rightarrow> bool \<Rightarrow> pc \<Rightarrow> IThreadWorker \<Rightarrow> pc \<times> IThreadWorker" where
  "TaskWorker_run task description completed RunEnter w = (TaskCall, setState RUNNING w)"
| "TaskWorker_run task description completed TaskCall w =
     (case task of
        None \<Rightarrow> (RunLeave, w)
      | Some Returns \<Rightarrow> (RunLeave, w\<lparr>derived := TaskWorker task description True\<rparr>)
      | Some (Throws e) \<Rightarrow> (RunLeave, onError (''Task execution failed: '' @ e) w)
      | Some ThrowsOther \<Rightarrow> (Terminated, w))"
| "TaskWorker_run task description completed RunLeave w = (StoreNotRunning, setState FINISHED w)"
| "TaskWorker_run task description completed p w = (p, w)"

fun TimerWorker_run ::
  "int \<Rightarrow> (int32 \<Rightarrow> outcome) option \<Rightarrow> int32 \<Rightarrow> int32 \<Rightarrow> pc \<Rightarrow> IThreadWorker \<Rightarrow>
     pc \<times> IThreadWorker" where
  "TimerWorker_run interval cb maxTriggers n RunEnter w = (TimerShouldContinue, setState RUNNING w)"
| "TimerWorker_run interval cb maxTriggers n TimerShouldContinue w =
     (in_shouldContinue TimerShouldContinue TimerCheck RunLeave w, w)"
| "TimerWorker_run interval cb maxTriggers n TimerCheck w =
     (if 0 < sint maxTriggers \<and> sint maxTriggers \<le> sint n then RunLeave else TimerSleep, w)"
| "TimerWorker_run interval cb maxTriggers n TimerSleep w = (TimerShouldContinue2, w)"
| "TimerWorker_run interval cb maxTriggers n TimerShouldContinue2 w =
     (in_shouldContinue TimerShouldContinue2 TimerCount RunLeave w, w)"
| "TimerWorker_run interval cb maxTriggers n TimerCount w =
     (TimerCall, w\<lparr>derived := TimerWorker interval cb maxTriggers (n + 1)\<rparr>)"
| "TimerWorker_run interval cb maxTriggers n TimerCall w =
     guarded ''Timer callback failed: '' (invoke cb n) TimerShouldContinue w"
| "TimerWorker_run interval cb maxTriggers n RunLeave w = (StoreNotRunning, setState FINISHED w)"
| "TimerWorker_run interval cb maxTriggers n p w = (p, w)"

fun LoopWorker_run ::
  "int32 \<Rightarrow> (int32 \<Rightarrow> outcome) option \<Rightarrow> outcome option \<Rightarrow> outcome option \<Rightarrow> int32 \<Rightarrow> pc \<Rightarrow>
     IThreadWorker \<Rightarrow> pc \<times> IThreadWorker" where
  "LoopWorker_run loopCount cb startCb endCb cur RunEnter w = (LoopStart, setState RUNNING w)"
| "LoopWorker_run loopCount cb startCb endCb cur LoopStart w =
     (unguarded (invoke_once startCb) (LoopTest 1), w)"
| "LoopWorker_run loopCount cb startCb endCb cur (LoopTest i) w =
     (if sint i \<le> sint loopCount then LoopShouldContinue i else LoopEnd, w)"
| "LoopWorker_run loopCount cb startCb endCb cur (LoopShouldContinue i) w =
     (in_shouldContinue (LoopShouldContinue i) (LoopStore i) LoopEnd w, w)"
| "LoopWorker_run loopCount cb startCb endCb cur (LoopStore i) w =
     (LoopCall i, w\<lparr>derived := LoopWorker loopCount cb startCb endCb i\<rparr>)"
| "LoopWorker_run loopCount cb startCb endCb cur (LoopCall i) w =
     guarded ''Loop callback failed: '' (invoke cb i) (LoopTest (i + 1)) w"
| "LoopWorker_run loopCount cb startCb endCb cur LoopEnd w =
     (unguarded (invoke_once endCb) RunLeave, w)"
| "LoopWorker_run loopCount cb startCb endCb cur RunLeave w = (StoreNotRunning, setState FINISHED w)"
| "LoopWorker_run loopCount cb startCb endCb cur p w = (p, w)"

text \<open>The virtual call \<^verbatim>\<open>worker->run()\<close>, at position \<open>p\<close> of the body it dispatches to.\<close>

definition run :: "pc \<Rightarrow> IThreadWorker \<Rightarrow> pc \<times> IThreadWorker" where
  "run p w =
     (case derived w of
        MonitorWorker interval cb enabled n \<Rightarrow> MonitorWorker_run interval cb enabled n p w
      | TaskWorker task description completed \<Rightarrow> TaskWorker_run task description completed p w
      | TimerWorker interval cb maxTriggers n \<Rightarrow> TimerWorker_run interval cb maxTriggers n p w
      | LoopWorker loopCount cb startCb endCb cur \<Rightarrow>
          LoopWorker_run loopCount cb startCb endCb cur p w)"

section \<open>ThreadManager.h\<close>

type_synonym size_t = "64 word"

definition SIZE_MAX :: size_t where
  "SIZE_MAX = - 1"

text \<open>\<^verbatim>\<open>std::to_string\<close> of an unsigned value: its decimal digits.\<close>

function to_string :: "nat \<Rightarrow> string" where
  "to_string n =
     (if n < 10 then [char_of (48 + n)] else to_string (n div 10) @ [char_of (48 + n mod 10)])"
  by pat_completeness auto
termination
  by (relation "measure (\<lambda>n. n)") auto

declare to_string.simps [simp del]

text \<open>
  \<open>ThreadInfo\<close>. \<open>thread\<close> is the \<^verbatim>\<open>unique_ptr<std::thread>\<close>: \<open>None\<close> is the null
  pointer and \<open>Some j\<close> a thread object whose \<^verbatim>\<open>joinable()\<close> is \<open>j\<close>. \<open>worker\<close> is never
  null in an entry of the registry: both callers of \<^verbatim>\<open>startWorker\<close> return before the call
  when they hold no worker. \<open>startTime\<close> is written once and never read; it is left out.
\<close>

record ThreadInfo =
  thread :: "bool option"
  worker :: IThreadWorker
  running :: bool
  name :: string

text \<open>
  The lambda of \<^verbatim>\<open>startWorker\<close> after its \<^verbatim>\<open>find\<close> has succeeded, acting on the entry
  \<open>info\<close> it holds a reference to.
\<close>

fun thread_body :: "pc \<Rightarrow> ThreadInfo \<Rightarrow> pc \<times> ThreadInfo" where
  "thread_body Find info = (Find, info)"
| "thread_body StoreRunning info = (OnStart, info\<lparr>running := True\<rparr>)"
| "thread_body OnStart info = (RunEnter, info\<lparr>worker := onStart (worker info)\<rparr>)"
| "thread_body (Catch e) info = (StoreNotRunning, info\<lparr>worker := onError e (worker info)\<rparr>)"
| "thread_body StoreNotRunning info = (Notify, info\<lparr>running := False\<rparr>)"
| "thread_body Notify info = (Exited, info)"
| "thread_body Exited info = (Exited, info)"
| "thread_body Terminated info = (Terminated, info)"
| "thread_body p info = (case run p (worker info) of (p', w') \<Rightarrow> (p', info\<lparr>worker := w'\<rparr>))"

text \<open>
  \<open>IThreadWorkerFactory\<close> is an interface with no implementation in the repository. A
  factory is given by what its successive calls of \<^verbatim>\<open>createWorker()\<close> return (\<open>None\<close>:
  a null pointer) and the number of calls made so far.
\<close>

record IThreadWorkerFactory =
  products :: "nat \<Rightarrow> IThreadWorker option"
  calls :: nat

definition createWorker :: "IThreadWorkerFactory \<Rightarrow> IThreadWorker option \<times> IThreadWorkerFactory" where
  "createWorker f = (products f (calls f), f\<lparr>calls := calls f + 1\<rparr>)"

text \<open>
  The manager; its members are written without the underscore that ends their names in
  the source. The two maps are association lists with one pair per key, kept so by
  \<open>AList.update\<close>; \<^verbatim>\<open>threads_.size()\<close> is the length of the list. \<open>spawned\<close> is not a
  member: it holds the threads that \<^verbatim>\<open>startWorker\<close> has created, each under the
  \<open>threadId\<close> its lambda captured, with the position it has reached. The two mutexes
  and the condition variable are not in the record: an operation that takes a lock is one
  function of the state, and a caller that has to wait is the result \<open>None\<close>.
  \<open>terminated\<close> is not a member either: it is set when \<^verbatim>\<open>std::terminate\<close> is called,
  which ends the process. What an operation returns together with a state in which
  \<open>terminated\<close> is set reaches no caller.
\<close>

record ThreadManager =
  factories :: "(string \<times> IThreadWorkerFactory) list"
  threads :: "(size_t \<times> ThreadInfo) list"
  maxThreads :: size_t
  nextId :: size_t
  spawned :: "(size_t \<times> pc) list"
  terminated :: bool

definition new_ThreadManager :: "size_t \<Rightarrow> ThreadManager" where
  "new_ThreadManager limit =
     \<lparr>factories = [], threads = [], maxThreads = limit, nextId = 1, spawned = [],
      terminated = False\<rparr>"

definition addFactory :: "IThreadWorkerFactory \<Rightarrow> string \<Rightarrow> ThreadManager \<Rightarrow> bool \<times> ThreadManager" where
  "addFactory factory type m =
     (if map_of (factories m) type \<noteq> None then (False, m)
      else (True, m\<lparr>factories := AList.update type factory (factories m)\<rparr>))"

text \<open>
  \<^verbatim>\<open>startWorker\<close>, in the order of its statements. Its first part ends with the creation of
  the thread (\<^verbatim>\<open>std::thread newThread(...)\<close>), which starts running at once; the second
  part is the three assignments to \<^verbatim>\<open>threads_[threadId]\<close>, taken together. Between the two
  the local variables are the id and the local \<open>info\<close>. The entry of the registry is the one
  \<^verbatim>\<open>operator[]\<close> returns: the entry already under that id, or a new one, whose name is
  empty (the name given to \<^verbatim>\<open>startWorker\<close> stays in the local \<open>info\<close>). When the id is
  already in the registry, the assignment to \<open>thread\<close> destroys the \<^verbatim>\<open>std::thread\<close> the
  entry holds: if that thread is still joinable its destructor calls \<^verbatim>\<open>std::terminate\<close>.
\<close>

definition startWorker_spawn ::
  "IThreadWorker \<Rightarrow> string \<Rightarrow> ThreadManager \<Rightarrow> (size_t \<times> ThreadInfo) \<times> ThreadManager" where
  "startWorker_spawn w nm m =
     (let threadId = nextId m;
          info = \<lparr>thread = None, worker = onInitialize w, running = False, name = nm\<rparr>
      in ((threadId, info),
          m\<lparr>nextId := nextId m + 1, spawned := AList.update threadId Find (spawned m)\<rparr>))"

definition startWorker_store :: "size_t \<times> ThreadInfo \<Rightarrow> ThreadManager \<Rightarrow> size_t \<times> ThreadManager" where
  "startWorker_store local m =
     (case local of (threadId, info) \<Rightarrow>
        (case map_of (threads m) threadId of
           None \<Rightarrow>
             (threadId,
              m\<lparr>threads :=
                  AList.update threadId
                    \<lparr>thread = Some True, worker = worker info, running = False, name = []\<rparr>
                    (threads m)\<rparr>)
         | Some old \<Rightarrow>
             if thread old = Some True then (threadId, m\<lparr>terminated := True\<rparr>)
             else
               (threadId,
                m\<lparr>threads :=
                    AList.update threadId (old\<lparr>worker := worker info, thread := Some True\<rparr>)
                      (threads m)\<rparr>)))"

definition startWorker :: "IThreadWorker \<Rightarrow> string \<Rightarrow> ThreadManager \<Rightarrow> size_t \<times> ThreadManager" where
  "startWorker w nm m = (case startWorker_spawn w nm m of (local, m') \<Rightarrow> startWorker_store local m')"

text \<open>The ceiling test \<^verbatim>\<open>maxThreads_ > 0 && threads_.size() >= maxThreads_\<close>.\<close>

definition at_ceiling :: "ThreadManager \<Rightarrow> bool" where
  "at_ceiling m = (0 < maxThreads m \<and> unat (maxThreads m) \<le> length (threads m))"

text \<open>
  The name argument of \<^verbatim>\<open>startWorker\<close>: an empty name is replaced by the type, an underscore
  and \<^verbatim>\<open>nextId_++\<close>, which is evaluated before \<^verbatim>\<open>startWorker\<close> runs. In
  \<^verbatim>\<open>createThreadWithWorker\<close> the type is read from the worker; the name is taken to be
  evaluated while the caller still holds the worker, that is, before the other argument
  moves it.
\<close>

definition auto_name :: "string \<Rightarrow> string \<Rightarrow> ThreadManager \<Rightarrow> string \<times> ThreadManager" where
  "auto_name type nm m =
     (if nm = [] then (type @ ''_'' @ to_string (unat (nextId m)), m\<lparr>nextId := nextId m + 1\<rparr>)
      else (nm, m))"

definition createThread :: "string \<Rightarrow> string \<Rightarrow> ThreadManager \<Rightarrow> size_t \<times> ThreadManager" where
  "createThread type nm m =
     (case map_of (factories m) type of
        None \<Rightarrow> (SIZE_MAX, m)
      | Some factory \<Rightarrow>
          if at_ceiling m then (SIZE_MAX, m)
          else
            (case createWorker factory of (made, factory') \<Rightarrow>
               let m1 = m\<lparr>factories := AList.update type factory' (factories m)\<rparr> in
               (case made of
                  None \<Rightarrow> (SIZE_MAX, m1)
                | Some w \<Rightarrow> (case auto_name type nm m1 of (nm', m2) \<Rightarrow> startWorker w nm' m2))))"

definition createThreadWithWorker ::
  "IThreadWorker option \<Rightarrow> string \<Rightarrow> ThreadManager \<Rightarrow> size_t \<times> ThreadManager" where
  "createThreadWithWorker given nm m =
     (case given of
        None \<Rightarrow> (SIZE_MAX, m)
      | Some w \<Rightarrow>
          if at_ceiling m then (SIZE_MAX, m)
          else (case auto_name (getType w) nm m of (nm', m') \<Rightarrow> startWorker w nm' m'))"

text \<open>
  One action of the thread whose lambda captured \<open>threadId\<close>. Past its \<^verbatim>\<open>find\<close> the
  lambda holds a reference to its entry; the entry is looked up again here at each action,
  and a thread whose entry is gone performs no action. A thread that reaches \<open>Terminated\<close>
  has called \<^verbatim>\<open>std::terminate\<close>.
\<close>

definition thread_step :: "size_t \<Rightarrow> ThreadManager \<Rightarrow> ThreadManager" where
  "thread_step threadId m =
     (case map_of (spawned m) threadId of
        None \<Rightarrow> m
      | Some p \<Rightarrow>
          (case map_of (threads m) threadId of
             None \<Rightarrow> if p = Find then m\<lparr>spawned := AList.update threadId Exited (spawned m)\<rparr> else m
           | Some info \<Rightarrow>
               if p = Find then m\<lparr>spawned := AList.update threadId StoreRunning (spawned m)\<rparr>
               else
                 (case thread_body p info of (p', info') \<Rightarrow>
                    m\<lparr>threads := AList.update threadId info' (threads m),
                      spawned := AList.update threadId p' (spawned m),
                      terminated := (terminated m \<or> p' = Terminated)\<rparr>)))"

text \<open>
  \<^verbatim>\<open>stopThread\<close>. With the entry found, the call first calls \<^verbatim>\<open>onStop\<close>
  (\<open>stopThread_onStop\<close>) and then, when the entry holds a joinable thread, joins it.
  \<^verbatim>\<open>join()\<close> returns once the thread's lambda has returned: \<open>stopThread_join\<close> is the
  rest of the call in the state the thread has reached by then, and in a state where the
  lambda has not returned the caller is still blocked (the result \<open>None\<close>), holding the
  lock of the registry. \<open>stopThread\<close> is the call when the thread performs no action
  after \<^verbatim>\<open>onStop\<close>.
\<close>

definition stopThread_onStop :: "size_t \<Rightarrow> ThreadManager \<Rightarrow> ThreadManager" where
  "stopThread_onStop threadId m =
     (case map_of (threads m) threadId of
        None \<Rightarrow> m
      | Some info \<Rightarrow>
          m\<lparr>threads :=
              AList.update threadId (info\<lparr>worker := onStop (worker info)\<rparr>) (threads m)\<rparr>)"

definition stopThread_join :: "size_t \<Rightarrow> ThreadManager \<Rightarrow> (bool \<times> ThreadManager) option" where
  "stopThread_join threadId m =
     (case map_of (threads m) threadId of
        None \<Rightarrow> Some (False, m)
      | Some info \<Rightarrow>
          if thread info = Some True
          then (if map_of (spawned m) threadId = Some Exited
                then Some (True,
                       m\<lparr>threads :=
                           AList.update threadId (info\<lparr>thread := Some False\<rparr>) (threads m)\<rparr>)
                else None)
          else Some (True, m))"

definition stopThread :: "size_t \<Rightarrow> ThreadManager \<Rightarrow> (bool \<times> ThreadManager) option" where
  "stopThread threadId m =
     (case map_of (threads m) threadId of
        None \<Rightarrow> Some (False, m)
      | Some info \<Rightarrow> stopThread_join threadId (stopThread_onStop threadId m))"

definition pauseThread :: "size_t \<Rightarrow> ThreadManager \<Rightarrow> bool \<times> ThreadManager" where
  "pauseThread threadId m =
     (case map_of (threads m) threadId of
        None \<Rightarrow> (False, m)
      | Some info \<Rightarrow>
          if isRunning (worker info)
          then (True, m\<lparr>threads :=
                  AList.update threadId (info\<lparr>worker := onPause (worker info)\<rparr>) (threads m)\<rparr>)
          else (False, m))"

definition resumeThread :: "size_t \<Rightarrow> ThreadManager \<Rightarrow> bool \<times> ThreadManager" where
  "resumeThread threadId m =
     (case map_of (threads m) threadId of
        None \<Rightarrow> (False, m)
      | Some info \<Rightarrow>
          if isPaused (worker info)
          then (True, m\<lparr>threads :=
                  AList.update threadId (info\<lparr>worker := onResume (worker info)\<rparr>) (threads m)\<rparr>)
          else (False, m))"

definition stopAll :: "ThreadManager \<Rightarrow> ThreadManager" where
  "stopAll m =
     m\<lparr>threads := map (\<lambda>(k, info). (k, info\<lparr>worker := onStop (worker info)\<rparr>)) (threads m)\<rparr>"

definition allThreadsFinished :: "ThreadManager \<Rightarrow> bool" where
  "allThreadsFinished m = list_all (\<lambda>(k, info). \<not> running info) (threads m)"

text \<open>
  \<^verbatim>\<open>cleanupFinishedThreadsUnsafe\<close>. \<^verbatim>\<open>join()\<close> returns once the thread's lambda has
  returned; until then the caller is blocked, which is the result \<open>None\<close>.
\<close>

fun cleanup_entries :: "(size_t \<times> pc) list \<Rightarrow> (size_t \<times> ThreadInfo) list \<Rightarrow> (size_t \<times> ThreadInfo) list option" where
  "cleanup_entries sp [] = Some []"
| "cleanup_entries sp ((k, info) # rest) =
     (if \<not> running info \<and> isFinished (worker info)
      then (if thread info = Some True \<and> map_of sp k \<noteq> Some Exited then None
            else cleanup_entries sp rest)
      else map_option (\<lambda>kept. (k, info) # kept) (cleanup_entries sp rest))"

definition cleanupFinishedThreadsUnsafe :: "ThreadManager \<Rightarrow> ThreadManager option" where
  "cleanupFinishedThreadsUnsafe m =
     map_option (\<lambda>kept. m\<lparr>threads := kept\<rparr>) (cleanup_entries (spawned m) (threads m))"

text \<open>
  \<^verbatim>\<open>waitForAll\<close>, called in the state \<open>m\<close>: \<^verbatim>\<open>condition_.wait(lock, pred)\<close> returns at once
  when the predicate holds, and otherwise blocks the caller (the result \<open>None\<close>) until a
  notification makes it evaluate the predicate again, in the state reached by then.
\<close>

definition waitForAll :: "ThreadManager \<Rightarrow> ThreadManager option" where
  "waitForAll m = (if allThreadsFinished m then cleanupFinishedThreadsUnsafe m else None)"

definition getTotalThreadCount :: "ThreadManager \<Rightarrow> nat" where
  "getTotalThreadCount m = length (threads m)"

section \<open>One registry entry under its thread and the controlling side\<close>

text \<open>
  What can happen to one entry of the registry: its own thread performs its next action
  (its \<^verbatim>\<open>find\<close> succeeds, since the entry is in the registry), or the controlling side
  calls one of the hooks that \<^verbatim>\<open>stopThread\<close> and \<^verbatim>\<open>stopAll\<close>, \<^verbatim>\<open>pauseThread\<close> and
  \<^verbatim>\<open>resumeThread\<close> call on the worker. A thread whose \<^verbatim>\<open>find\<close> ran before the entry was
  stored is at \<open>Exited\<close> from the start.
\<close>

datatype action = ThreadAction | CallOnStop | CallOnPause | CallOnResume

fun act :: "action \<Rightarrow> pc \<times> ThreadInfo \<Rightarrow> pc \<times> ThreadInfo" where
  "act ThreadAction (p, info) = (if p = Find then (StoreRunning, info) else thread_body p info)"
| "act CallOnStop (p, info) = (p, info\<lparr>worker := onStop (worker info)\<rparr>)"
| "act CallOnPause (p, info) = (p, info\<lparr>worker := onPause (worker info)\<rparr>)"
| "act CallOnResume (p, info) = (p, info\<lparr>worker := onResume (worker info)\<rparr>)"

text \<open>
  The values of \<^verbatim>\<open>getState()\<close> over a run: the value before the first action and the
  value after each action. A reader that calls \<^verbatim>\<open>getState()\<close> from time to time sees a
  subsequence of this list, each value possibly several times in a row.
\<close>

fun observe :: "action list \<Rightarrow> pc \<times> ThreadInfo \<Rightarrow> ThreadState list" where
  "observe [] c = [getState (worker (snd c))]"
| "observe (a # as) c = getState (worker (snd c)) # observe as (act a c)"

text \<open>The sequence Stopped, Running, (Paused, Running) \<open>n\<close> times, Finished.\<close>

definition lifecycle :: "nat \<Rightarrow> ThreadState list" where
  "lifecycle n = [STOPPED, RUNNING] @ concat (replicate n [PAUSED, RUNNING]) @ [FINISHED]"

text \<open>
  Which positions go with which state: before \<^verbatim>\<open>run()\<close> has stored \<open>RUNNING\<close>, and after
  it has stored \<open>FINISHED\<close>.
\<close>

definition before_run :: "pc \<Rightarrow> bool" where
  "before_run p = (p = Find \<or> p = StoreRunning \<or> p = OnStart \<or> p = RunEnter)"

definition after_run :: "pc \<Rightarrow> bool" where
  "after_run p = (p = StoreNotRunning \<or> p = Notify \<or> p = Exited)"

definition consistent :: "pc \<Rightarrow> ThreadState \<Rightarrow> bool" where
  "consistent p s =
     (case s of
        STOPPED \<Rightarrow> before_run p \<or> p = Exited
      | RUNNING \<Rightarrow> \<not> before_run p
      | PAUSED \<Rightarrow> False
      | FINISHED \<Rightarrow> after_run p)"

definition advance :: "ThreadState \<Rightarrow> ThreadState \<Rightarrow> bool" where
  "advance s s' = (s' = s \<or> (s = STOPPED \<and> s' = RUNNING) \<or> (s = RUNNING \<and> s' = FINISHED))"

definition reaches :: "ThreadState \<Rightarrow> ThreadState \<Rightarrow> bool" where
  "reaches s s' =
     (s' = s \<or> (s = STOPPED \<and> (s' = RUNNING \<or> s' = FINISHED)) \<or> (s = RUNNING \<and> s' = FINISHED))"

text \<open>The two flags a call of \<^verbatim>\<open>shouldContinue\<close> reads.\<close>

definition flags :: "IThreadWorker \<Rightarrow> bool \<times> bool" where
  "flags w = (shouldPause w, shouldStop w)"

text \<open>
  The positions inside the loop of \<^verbatim>\<open>shouldContinue\<close>.
\<close>

definition in_wait :: "pc \<Rightarrow> bool" where
  "in_wait p =
     (p = MonitorShouldContinue \<or> p = TimerShouldContinue \<or> p = TimerShouldContinue2 \<or>
      (case p of LoopShouldContinue i \<Rightarrow> True | _ \<Rightarrow> False))"

text \<open>
  The ids of the registry are values the id counter has passed: every state that the
  operations reach from a new manager is such a state, as long as the counter has not
  wrapped around.
\<close>

definition ids_below_counter :: "ThreadManager \<Rightarrow> bool" where
  "ids_below_counter m = list_all (\<lambda>(k, info). unat k < unat (nextId m)) (threads m)"

section \<open>Scenarios\<close>

text \<open>A view of the registry: each id with its worker's state and its \<open>running\<close> flag.\<close>

definition registry :: "ThreadManager \<Rightarrow> (size_t \<times> ThreadState \<times> bool) list" where
  "registry m = map (\<lambda>(k, info). (k, getState (worker info), running info)) (threads m)"

text \<open>A monitor whose callback throws a \<^verbatim>\<open>std::runtime_error\<close>, handed to a new manager.\<close>

definition failing_monitor :: IThreadWorker where
  "failing_monitor = new_MonitorWorker 1000 (Some (\<lambda>n. Throws ''check failed''))"

definition monitor_created :: ThreadManager where
  "monitor_created =
     snd (createThreadWithWorker (Some failing_monitor) ''SystemMonitor'' (new_ThreadManager 0))"

text \<open>A task that throws a \<^verbatim>\<open>std::runtime_error\<close>, handed to a new manager.\<close>

definition failing_task :: IThreadWorker where
  "failing_task = new_TaskWorker (Some (Throws ''disk full'')) ''download''"

definition task_created :: ThreadManager where
  "task_created =
     snd (createThreadWithWorker (Some failing_task) ''FileDownloader'' (new_ThreadManager 0))"

text \<open>
  A loop worker of five iterations with no callbacks, handed to a new manager; its thread
  has then performed 13 actions and is inside the second iteration.
\<close>

definition loop_created :: ThreadManager where
  "loop_created =
     snd (createThreadWithWorker (Some (new_LoopWorker 5 None None None)) ''Loop'' (new_ThreadManager 0))"

definition loop_running :: ThreadManager where
  "loop_running = (thread_step 1 ^^ 13) loop_created"

text \<open>
  A task handed to a new manager, where the new thread performs its \<^verbatim>\<open>find\<close> between the
  two parts of \<^verbatim>\<open>startWorker\<close>.
\<close>

definition job :: IThreadWorker where
  "job = new_TaskWorker (Some Returns) ''download''"

definition job_spawned :: "(size_t \<times> ThreadInfo) \<times> ThreadManager" where
  "job_spawned = startWorker_spawn job ''FileDownloader'' (new_ThreadManager 0)"

definition job_looked_up :: ThreadManager where
  "job_looked_up = thread_step 1 (snd job_spawned)"

definition job_stored :: "size_t \<times> ThreadManager" where
  "job_stored = startWorker_store (fst job_spawned) job_looked_up"

text \<open>The same task, where \<^verbatim>\<open>createThreadWithWorker\<close> returns before the new thread has run.\<close>

definition job_created :: ThreadManager where
  "job_created = snd (createThreadWithWorker (Some job) ''FileDownloader'' (new_ThreadManager 0))"

text \<open>
  A manager with one factory, which returns a task at every call; the same with a ceiling
  of one thread, before and after a first thread has been created; and a manager whose
  factory returns no worker.
\<close>

definition job_factory :: IThreadWorkerFactory where
  "job_factory = \<lparr>products = (\<lambda>n. Some job), calls = 0\<rparr>"

definition job_manager :: ThreadManager where
  "job_manager = snd (addFactory job_factory ''job'' (new_ThreadManager 0))"







text \<open>An entry as \<^verbatim>\<open>startWorker\<close> stores it, and a run of it with hooks called in between.\<close>

definition job_entry :: ThreadInfo where
  "job_entry = \<lparr>thread = Some True, worker = job, running = False, name = []\<rparr>"

definition job_actions :: "action list" where
  "job_actions =
     [CallOnPause, ThreadAction, ThreadAction, CallOnResume, ThreadAction, ThreadAction,
      ThreadAction, CallOnStop, ThreadAction, ThreadAction, ThreadAction, ThreadAction, CallOnStop]"

text \<open>Workers whose flags ask for a pause, and for a pause and a stop.\<close>

definition pausing :: IThreadWorker where
  "pausing = job\<lparr>shouldPause := True\<rparr>"

definition stopping :: IThreadWorker where
  "stopping = job\<lparr>shouldPause := True, shouldStop := True\<rparr>"

section \<open>Properties of the hooks and of run()\<close>

lemma state_hooks [simp]:
  "state (onStop w) = state w" "state (onPause w) = state w" "state (onResume w) = state w"
  "state (onStart w) = state w" "state (onError e w) = state w" "state (onInitialize w) = state w"
  by (simp_all add: onStop_def onPause_def onResume_def onStart_def onError_def onInitialize_def
      split: derived.splits)

lemma flags_hooks [simp]:
  "flags (onStop w) = flags w" "flags (onPause w) = flags w" "flags (onResume w) = flags w"
  "flags (onStart w) = flags w" "flags (onError e w) = flags w" "flags (onInitialize w) = flags w"
  by (simp_all add: flags_def onStop_def onPause_def onResume_def onStart_def onError_def
      onInitialize_def split: derived.splits)

lemma in_shouldContinue_cases:
  "in_shouldContinue here yes no w = here \<or> in_shouldContinue here yes no w = yes \<or>
   in_shouldContinue here yes no w = no"
  by (simp add: in_shouldContinue_def split: option.splits)

lemma unguarded_cases:
  "unguarded r k = k \<or> (\<exists>e. unguarded r k = Catch e) \<or> unguarded r k = Terminated"
  by (cases r) (simp_all add: unguarded_def)

lemma guarded_cases:
  "guarded msg r k w = (p', w') \<Longrightarrow> state w' = state w \<and> (p' = k \<or> p' = Terminated)"
  by (cases r) (auto simp: guarded_def onError_def)

lemma MonitorWorker_run_state:
  "MonitorWorker_run interval cb enabled n p w = (p', w') \<Longrightarrow> consistent p (state w) \<Longrightarrow>
     consistent p' (state w') \<and> advance (state w) (state w')"
  using in_shouldContinue_cases [of MonitorShouldContinue MonitorEnabled RunLeave w]
        unguarded_cases [of "invoke cb n" MonitorSleep]
  by (cases p) (auto simp: consistent_def before_run_def after_run_def advance_def setState_def split: ThreadState.splits if_splits)

lemma TaskWorker_run_state:
  "TaskWorker_run task description completed p w = (p', w') \<Longrightarrow> consistent p (state w) \<Longrightarrow>
     consistent p' (state w') \<and> advance (state w) (state w')"
  by (cases p)
     (auto simp: consistent_def before_run_def after_run_def advance_def setState_def onError_def
       split: ThreadState.splits if_splits option.splits outcome.splits)

lemma TimerWorker_run_state:
  "TimerWorker_run interval cb maxTriggers n p w = (p', w') \<Longrightarrow> consistent p (state w) \<Longrightarrow>
     consistent p' (state w') \<and> advance (state w) (state w')"
  using in_shouldContinue_cases [of TimerShouldContinue TimerCheck RunLeave w]
        in_shouldContinue_cases [of TimerShouldContinue2 TimerCount RunLeave w]
  by (cases p) (auto simp: consistent_def before_run_def after_run_def advance_def setState_def split: ThreadState.splits if_splits dest!: guarded_cases)

lemma LoopWorker_run_state:
  assumes "LoopWorker_run loopCount cb startCb endCb cur p w = (p', w')"
      and "consistent p (state w)"
  shows "consistent p' (state w') \<and> advance (state w) (state w')"
proof (cases p)
  case (LoopShouldContinue i)
  with assms show ?thesis
    using in_shouldContinue_cases [of "LoopShouldContinue i" "LoopStore i" LoopEnd w]
    by (auto simp: consistent_def before_run_def after_run_def advance_def setState_def split: ThreadState.splits if_splits)
next
  case LoopStart
  with assms show ?thesis
    using unguarded_cases [of "invoke_once startCb" "LoopTest 1"]
    by (auto simp: consistent_def before_run_def after_run_def advance_def setState_def split: ThreadState.splits if_splits)
next
  case LoopEnd
  with assms show ?thesis
    using unguarded_cases [of "invoke_once endCb" RunLeave]
    by (auto simp: consistent_def before_run_def after_run_def advance_def setState_def split: ThreadState.splits if_splits)
qed (use assms in \<open>auto simp: consistent_def before_run_def after_run_def advance_def setState_def split: ThreadState.splits if_splits dest!: guarded_cases\<close>)

lemma run_state:
  "run p w = (p', w') \<Longrightarrow> consistent p (state w) \<Longrightarrow>
     consistent p' (state w') \<and> advance (state w) (state w')"
  unfolding run_def
  by (cases "derived w")
     (simp_all add: MonitorWorker_run_state TaskWorker_run_state TimerWorker_run_state
        LoopWorker_run_state)

lemma thread_body_state:
  "thread_body p info = (p', info') \<Longrightarrow> consistent p (state (worker info)) \<Longrightarrow>
     consistent p' (state (worker info')) \<and> advance (state (worker info)) (state (worker info'))"
  by (cases p) (auto simp: consistent_def before_run_def after_run_def advance_def setState_def split: ThreadState.splits prod.splits dest!: run_state)

lemma act_state:
  assumes "act a (p, info) = (p', info')" and "consistent p (state (worker info))"
  shows "consistent p' (state (worker info')) \<and> advance (state (worker info)) (state (worker info'))"
proof (cases a)
  case ThreadAction
  with assms show ?thesis
    by (cases "p = Find") (auto simp: consistent_def before_run_def after_run_def advance_def setState_def dest: thread_body_state split: ThreadState.splits)
qed (use assms in \<open>auto simp: advance_def\<close>)

text \<open>
  Neither a thread nor a hook writes \<open>shouldPause\<close> or \<open>shouldStop\<close>: a worker keeps
  the flags it was constructed with.
\<close>

lemma guarded_flags:
  "guarded msg r k w = (p', w') \<Longrightarrow> flags w' = flags w"
  by (cases r) (auto simp: guarded_def onError_def flags_def)

lemma run_flags: "run p w = (p', w') \<Longrightarrow> flags w' = flags w"
  unfolding run_def
  by (cases "derived w"; cases p)
     (auto simp: flags_def setState_def onError_def dest!: guarded_flags
       split: option.splits outcome.splits)

lemma thread_body_flags:
  "thread_body p info = (p', info') \<Longrightarrow> flags (worker info') = flags (worker info)"
  by (cases p) (auto split: prod.splits dest!: run_flags)

lemma act_flags: "flags (worker (snd (act a c))) = flags (worker (snd c))"
proof (cases c)
  case (Pair p info)
  then show ?thesis
    by (cases a; cases "thread_body p info") (auto dest: thread_body_flags)
qed

lemma flags_never_written: "flags (worker (snd (fold act as c))) = flags (worker (snd c))"
  by (induction as arbitrary: c) (simp_all add: act_flags)

text \<open>
  A thread inside the loop of \<^verbatim>\<open>shouldContinue\<close>, with the pause flag set and the stop
  flag not set, stays there whatever hooks are called: the state of its worker never
  changes again.
\<close>

lemma run_in_wait: "in_wait p \<Longrightarrow> flags w = (True, False) \<Longrightarrow> run p w = (p, w)"
  unfolding run_def
  by (cases "derived w"; cases p)
     (auto simp: in_wait_def flags_def in_shouldContinue_def shouldContinue_poll_def)

lemma thread_body_in_wait:
  "in_wait p \<Longrightarrow> flags (worker info) = (True, False) \<Longrightarrow> thread_body p info = (p, info)"
  by (cases p) (auto simp: in_wait_def run_in_wait)

lemma act_in_wait:
  assumes "in_wait p" and "flags (worker info) = (True, False)"
  shows "fst (act a (p, info)) = p \<and> flags (worker (snd (act a (p, info)))) = (True, False) \<and>
         state (worker (snd (act a (p, info)))) = state (worker info)"
proof (cases a)
  case ThreadAction
  with assms show ?thesis by (auto simp: thread_body_in_wait in_wait_def)
qed (use assms in simp_all)

lemma waiting_never_finished:
  "in_wait p \<Longrightarrow> flags (worker info) = (True, False) \<Longrightarrow>
     set (observe as (p, info)) = {state (worker info)}"
proof (induction as arbitrary: info)
  case Nil
  then show ?case by (simp add: getState_def)
next
  case (Cons a as)
  obtain info' where a: "act a (p, info) = (p, info')"
    using act_in_wait [OF Cons.prems, of a] by (cases "act a (p, info)") auto
  with act_in_wait [OF Cons.prems, of a]
  have "flags (worker info') = (True, False)" "state (worker info') = state (worker info)"
    by simp_all
  with Cons.IH [of info'] Cons.prems(1) a show ?case by (simp add: getState_def)
qed


section \<open>Properties of the observed states\<close>

lemma hd_observe: "hd (observe as c) = state (worker (snd c))"
  by (cases as) (simp_all add: getState_def)

lemma observe_Cons: "observe as c = state (worker (snd c)) # tl (observe as c)"
  by (cases as) (simp_all add: getState_def)

lemma observe_successively:
  "consistent (fst c) (state (worker (snd c))) \<Longrightarrow> successively advance (observe as c)"
proof (induction as arbitrary: c)
  case Nil
  then show ?case by simp
next
  case (Cons a as)
  obtain p info where c: "c = (p, info)" by (cases c)
  obtain p' info' where a: "act a (p, info) = (p', info')" by (cases "act a (p, info)")
  from act_state [OF a] Cons.prems c
  have *: "consistent p' (state (worker info'))" "advance (state (worker info)) (state (worker info'))"
    by simp_all
  from Cons.IH [of "(p', info')"] * have "successively advance (observe as (p', info'))" by simp
  moreover have "hd (observe as (p', info')) = state (worker info')"
    by (simp add: hd_observe)
  moreover have "observe as (p', info') \<noteq> []" by (cases as) simp_all
  ultimately show ?case using * c a
    by (cases "observe as (p', info')") (simp_all add: getState_def)
qed

lemma remdups_adj_const: "set xs \<subseteq> {a} \<Longrightarrow> remdups_adj (a # xs) = [a]"
  by (induction xs) auto

lemma finished_stays:
  "successively advance (FINISHED # xs) \<Longrightarrow> set xs \<subseteq> {FINISHED}"
  by (induction xs) (auto simp: advance_def)

lemma finished_terminal:
  "successively advance xs \<Longrightarrow> i < j \<Longrightarrow> j < length xs \<Longrightarrow> xs ! i = FINISHED \<Longrightarrow> xs ! j = FINISHED"
proof (induction xs arbitrary: i j)
  case Nil
  then show ?case by simp
next
  case (Cons x xs)
  show ?case
  proof (cases i)
    case 0
    with Cons.prems have "set xs \<subseteq> {FINISHED}" by (simp add: finished_stays)
    moreover from Cons.prems 0 have "xs ! (j - 1) \<in> set xs" by simp
    ultimately have "xs ! (j - 1) = FINISHED" by blast
    with Cons.prems 0 show ?thesis by (cases j) simp_all
  next
    case (Suc i')
    with Cons.prems have "successively advance xs" by (cases xs) simp_all
    with Cons.IH [of i' "j - 1"] Cons.prems Suc show ?thesis by (cases j) auto
  qed
qed

lemma successively_reaches: "successively advance xs \<Longrightarrow> sorted_wrt reaches xs"
proof -
  assume "successively advance xs"
  then have "successively reaches xs"
    by (rule successively_mono) (auto simp: advance_def reaches_def)
  moreover have "transp reaches"
    by (auto simp: transp_def reaches_def)
  ultimately show ?thesis
    by (simp add: successively_conv_sorted_wrt)
qed

lemma sorted_wrt_subseq: "subseq xs ys \<Longrightarrow> sorted_wrt P ys \<Longrightarrow> sorted_wrt P xs"
proof (induction rule: list_emb.induct)
  case (list_emb_Nil ys)
  then show ?case by simp
next
  case (list_emb_Cons xs ys y)
  then show ?case by simp
next
  case (list_emb_Cons2 x y xs ys)
  then show ?case using list_emb_set [of "(=)" xs ys] by auto
qed

lemma seen_finished:
  "sorted_wrt reaches (FINISHED # xs) \<Longrightarrow> remdups_adj (FINISHED # xs) = [FINISHED]"
  by (rule remdups_adj_const) (auto simp: reaches_def)

lemma seen_running:
  "sorted_wrt reaches (RUNNING # xs) \<Longrightarrow>
     remdups_adj (RUNNING # xs) = [RUNNING] \<or> remdups_adj (RUNNING # xs) = [RUNNING, FINISHED]"
proof (induction xs)
  case Nil
  then show ?case by simp
next
  case (Cons x xs)
  from Cons.prems have "x = RUNNING \<or> x = FINISHED" by (auto simp: reaches_def)
  then show ?case
  proof
    assume "x = RUNNING"
    with Cons show ?thesis by simp
  next
    assume x: "x = FINISHED"
    with Cons.prems have "remdups_adj (FINISHED # xs) = [FINISHED]"
      by (intro seen_finished) simp
    with x show ?thesis by simp
  qed
qed

lemma seen_stopped:
  "sorted_wrt reaches (STOPPED # xs) \<Longrightarrow>
     subseq (remdups_adj (STOPPED # xs)) [STOPPED, RUNNING, FINISHED]"
proof (induction xs)
  case Nil
  then show ?case by simp
next
  case (Cons x xs)
  from Cons.prems have "x = STOPPED \<or> x = RUNNING \<or> x = FINISHED" by (auto simp: reaches_def)
  then show ?case
  proof (elim disjE)
    assume "x = STOPPED"
    with Cons show ?thesis by simp
  next
    assume x: "x = RUNNING"
    with Cons.prems have "sorted_wrt reaches (RUNNING # xs)" by simp
    from seen_running [OF this] x show ?thesis by auto
  next
    assume x: "x = FINISHED"
    with Cons.prems have "remdups_adj (FINISHED # xs) = [FINISHED]"
      by (intro seen_finished) simp
    with x show ?thesis by simp
  qed
qed

lemma seen_lifecycle:
  assumes "sorted_wrt reaches xs" and "PAUSED \<notin> set xs"
  shows "subseq (remdups_adj xs) (lifecycle 0)"
proof (cases xs)
  case Nil
  then show ?thesis by simp
next
  case (Cons x ys)
  show ?thesis
  proof (cases x)
    case STOPPED
    with assms Cons show ?thesis using seen_stopped [of ys] by (simp add: lifecycle_def)
  next
    case RUNNING
    with assms Cons show ?thesis using seen_running [of ys] by (auto simp: lifecycle_def)
  next
    case PAUSED
    with assms Cons show ?thesis by simp
  next
    case FINISHED
    with assms Cons show ?thesis using seen_finished [of ys] by (simp add: lifecycle_def)
  qed
qed

text \<open>
  Claim C4: a worker is constructed in the state \<open>STOPPED\<close>. For a worker of one of the
  four classes, stored in the registry in that state, whatever its thread does and
  whichever hooks the controlling side calls in between, what a reader of
  \<^verbatim>\<open>getState()\<close> sees (repeated readings of one value taken as one) is a subsequence of
  Stopped, Running, (Paused, Running)*, Finished; the first value is Stopped; and after a
  value Finished every later value is Finished.
\<close>

theorem state_sequence_lifecycle:
  assumes "state (worker info) = STOPPED" and "p = Find \<or> p = Exited"
  shows "getState (new_IThreadWorker d) = STOPPED \<and>
         (\<forall>seen. subseq seen (observe as (p, info)) \<longrightarrow>
            (\<exists>n. subseq (remdups_adj seen) (lifecycle n))) \<and>
         hd (observe as (p, info)) = STOPPED \<and>
         (\<forall>i j. i < j \<and> j < length (observe as (p, info)) \<and> observe as (p, info) ! i = FINISHED
            \<longrightarrow> observe as (p, info) ! j = FINISHED)"
proof -
  let ?tr = "observe as (p, info)"
  from assms have "consistent p (state (worker info))"
    by (auto simp: consistent_def before_run_def)
  then have succ: "successively advance ?tr"
    using observe_successively [of "(p, info)" as] by simp
  obtain rest where tr: "?tr = STOPPED # rest"
    using observe_Cons [of as "(p, info)"] assms by auto
  from succ have sorted: "sorted_wrt reaches ?tr" by (rule successively_reaches)
  then have never: "PAUSED \<notin> set ?tr"
    unfolding tr by (auto simp: reaches_def)
  have "\<exists>n. subseq (remdups_adj seen) (lifecycle n)" if "subseq seen ?tr" for seen
  proof -
    from that sorted have "sorted_wrt reaches seen" by (rule sorted_wrt_subseq)
    moreover from that never have "PAUSED \<notin> set seen"
      using list_emb_set [of "(=)" seen ?tr] by auto
    ultimately have "subseq (remdups_adj seen) (lifecycle 0)" by (rule seen_lifecycle)
    then show ?thesis ..
  qed
  moreover have "hd ?tr = STOPPED" using assms by (simp add: hd_observe)
  moreover have "\<forall>i j. i < j \<and> j < length ?tr \<and> ?tr ! i = FINISHED \<longrightarrow> ?tr ! j = FINISHED"
    using finished_terminal [OF succ] by blast
  moreover have "getState (new_IThreadWorker d) = STOPPED"
    by (simp add: getState_def new_IThreadWorker_def)
  ultimately show ?thesis by blast
qed

theorem state_sequence_lifecycle_witness:
  "state (worker job_entry) = STOPPED \<and>
   (\<exists>n. subseq (remdups_adj (observe job_actions (Find, job_entry))) (lifecycle n)) \<and>
   hd (observe job_actions (Find, job_entry)) = STOPPED \<and>
   observe job_actions (Find, job_entry) ! 9 = FINISHED \<and>
   observe job_actions (Find, job_entry) ! 13 = FINISHED"
proof -
  let ?tr = "observe job_actions (Find, job_entry)"
  have h: "state (worker job_entry) = STOPPED"
    by (simp add: job_entry_def job_def new_TaskWorker_def new_IThreadWorker_def)
  have nine: "?tr ! 9 = FINISHED" by code_simp
  have len: "(9::nat) < 13 \<and> 13 < length ?tr" by code_simp
  note inst = state_sequence_lifecycle [OF h disjI1 [OF refl], where as = job_actions]
  from inst have "subseq ?tr ?tr \<longrightarrow> (\<exists>n. subseq (remdups_adj ?tr) (lifecycle n))" by blast
  then have a: "\<exists>n. subseq (remdups_adj ?tr) (lifecycle n)" by simp
  from inst have b: "hd ?tr = STOPPED" by blast
  from inst nine len have c: "?tr ! 13 = FINISHED" by blast
  from h a b nine c show ?thesis by blast
qed

section \<open>Properties of shouldContinue\<close>

lemma shouldContinue_flags:
  "map flags xs = map flags ys \<Longrightarrow> shouldContinue xs = shouldContinue ys"
proof (induction xs arbitrary: ys)
  case Nil
  then show ?case by simp
next
  case (Cons x xs)
  then obtain y ys' where "ys = y # ys'" by (cases ys) auto
  with Cons show ?case by (auto simp: shouldContinue_poll_def flags_def)
qed

lemma in_shouldContinue_call:
  "in_shouldContinue here yes no w =
     (case shouldContinue [w] of None \<Rightarrow> here | Some (r, ms) \<Rightarrow> if r then yes else no)"
  by (simp add: in_shouldContinue_def split: option.splits)

lemma shouldContinue_waits:
  "\<forall>w \<in> set waiting. shouldPause w \<and> \<not> shouldStop w \<Longrightarrow> shouldContinue waiting = None"
  by (induction waiting) (auto simp: shouldContinue_poll_def)

lemma shouldContinue_returns:
  "\<forall>w \<in> set waiting. shouldPause w \<and> \<not> shouldStop w \<Longrightarrow> \<not> (shouldPause w \<and> \<not> shouldStop w) \<Longrightarrow>
     shouldContinue (waiting @ w # rest) = Some (\<not> shouldStop w, 100 * length waiting)"
  by (induction waiting) (auto simp: shouldContinue_poll_def)

text \<open>
  Claim C9: a call of \<^verbatim>\<open>shouldContinue\<close> that reads the flags with the pause request set
  and the stop request not set stays in its loop, sleeping 100 ms after each such reading;
  at the first reading where the pause is lifted or a stop is requested it returns, false
  when the stop request is set and true otherwise; and a call that reads the same flags
  behaves in the same way, whatever else the worker holds.
\<close>

theorem shouldContinue_level_triggered:
  assumes "\<forall>w \<in> set waiting. shouldPause w \<and> \<not> shouldStop w"
      and "\<not> (shouldPause w \<and> \<not> shouldStop w)"
  shows "shouldContinue waiting = None \<and>
         shouldContinue (waiting @ w # rest) = Some (\<not> shouldStop w, 100 * length waiting) \<and>
         (\<forall>other. map flags other = map flags (waiting @ w # rest) \<longrightarrow>
            shouldContinue other = shouldContinue (waiting @ w # rest))"
  using assms shouldContinue_waits [of waiting] shouldContinue_returns [of waiting w rest]
    shouldContinue_flags [of _ "waiting @ w # rest"]
  by blast

theorem shouldContinue_level_triggered_witness:
  "shouldPause pausing \<and> \<not> shouldStop pausing \<and> shouldStop stopping \<and>
   shouldContinue [pausing, pausing] = None \<and>
   shouldContinue [pausing, pausing, stopping, job] = Some (False, 200) \<and>
   shouldContinue [pausing, pausing, job, stopping] = Some (True, 200)"
proof -
  have p: "\<forall>w \<in> set [pausing, pausing]. shouldPause w \<and> \<not> shouldStop w"
    by (simp add: pausing_def job_def new_TaskWorker_def new_IThreadWorker_def)
  have s: "\<not> (shouldPause stopping \<and> \<not> shouldStop stopping)"
    by (simp add: stopping_def)
  have j: "\<not> (shouldPause job \<and> \<not> shouldStop job)"
    by (simp add: job_def new_TaskWorker_def new_IThreadWorker_def)
  from shouldContinue_level_triggered [OF p s, of "[job]"]
       shouldContinue_level_triggered [OF p j, of "[stopping]"]
  show ?thesis
    by (simp add: pausing_def stopping_def job_def new_TaskWorker_def new_IThreadWorker_def)
qed

section \<open>Properties of the manager\<close>

text \<open>
  Claim C7: \<^verbatim>\<open>addFactory\<close> under a name that is not registered returns true and maps the
  name to the factory; a second call with the same name then returns false and leaves the
  manager as it was, so the name is still mapped to the first factory. (And in every state
  where a name is mapped to a factory, \<^verbatim>\<open>addFactory\<close> with that name returns false and
  changes nothing.)
\<close>

theorem addFactory_first_registration_wins:
  assumes "map_of (factories m) type = None"
  shows "(case addFactory first type m of (r1, m1) \<Rightarrow>
            r1 = True \<and> map_of (factories m1) type = Some first \<and>
            (case addFactory second type m1 of (r2, m2) \<Rightarrow>
               r2 = False \<and> m2 = m1 \<and> map_of (factories m2) type = Some first)) \<and>
         (\<forall>m'. map_of (factories m') type = Some first \<longrightarrow> addFactory second type m' = (False, m'))"
  using assms by (simp add: addFactory_def update_conv')

theorem addFactory_first_registration_wins_witness:
  "map_of (factories (new_ThreadManager 0)) ''job'' = None \<and>
   fst (addFactory job_factory ''job'' (new_ThreadManager 0)) = True \<and>
   map_of (factories job_manager) ''job'' = Some job_factory \<and>
   addFactory \<lparr>products = (\<lambda>n. None), calls = 0\<rparr> ''job'' job_manager = (False, job_manager)"
proof -
  have h: "map_of (factories (new_ThreadManager 0)) ''job'' = None"
    by (simp add: new_ThreadManager_def)
  from addFactory_first_registration_wins
         [OF h, of job_factory "\<lparr>products = (\<lambda>n. None), calls = 0\<rparr>"]
  show ?thesis
    using h by (simp add: job_manager_def split: prod.splits)
qed

text \<open>
  Claim C10: \<^verbatim>\<open>createThreadWithWorker\<close> called with a null worker returns \<^verbatim>\<open>SIZE_MAX\<close>
  and leaves the manager (the thread registry, the factory registry and the id counter
  among the rest) as it was.
\<close>

theorem createThreadWithWorker_null:
  "createThreadWithWorker None nm m = (SIZE_MAX, m)"
  by (simp add: createThreadWithWorker_def)

text \<open>
  The id counter within its range: the ids of the registry stay below it, and an id taken
  from it is not in the registry.
\<close>

lemma unat_next:
  fixes x :: size_t
  shows "unat x < 2 ^ 64 - 1 \<Longrightarrow> unat (x + 1) = unat x + 1"
  using unat_add_lem [of x 1] by simp


lemma list_all_update:
  "list_all P xs \<Longrightarrow> P (k, v) \<Longrightarrow> list_all P (AList.update k v xs)"
  by (induction xs) auto

lemma fresh_id:
  assumes "ids_below_counter m" and "unat (nextId m) \<le> unat k"
  shows "map_of (threads m) k = None"
proof -
  have "k \<notin> fst ` set (threads m)"
  proof
    assume "k \<in> fst ` set (threads m)"
    then obtain info where "(k, info) \<in> set (threads m)" by auto
    with assms(1) have "unat k < unat (nextId m)"
      by (auto simp: ids_below_counter_def list_all_iff)
    with assms(2) show False by simp
  qed
  then show ?thesis by (simp add: map_of_eq_None_iff)
qed

lemma ids_below_counter_mono:
  assumes "ids_below_counter m" and "threads m' = threads m"
      and "unat (nextId m) \<le> unat (nextId m')"
  shows "ids_below_counter m'"
  using assms unfolding ids_below_counter_def list_all_iff by force

lemma startWorker_fresh:
  assumes "map_of (threads m) (nextId m) = None" and "startWorker w nm m = (r, m')"
  shows "r = nextId m \<and> nextId m' = nextId m + 1 \<and> factories m' = factories m \<and>
         maxThreads m' = maxThreads m \<and> terminated m' = terminated m \<and>
         threads m' =
           AList.update r \<lparr>thread = Some True, worker = onInitialize w, running = False, name = []\<rparr>
             (threads m)"
  using assms
  by (auto simp: startWorker_def startWorker_spawn_def startWorker_store_def Let_def)

lemma ids_below_counter_started:
  assumes "ids_below_counter m" and "unat (nextId m) < 2 ^ 64 - 1"
      and "startWorker w nm m = (r, m')"
  shows "ids_below_counter m'"
proof -
  from assms(1) have fresh: "map_of (threads m) (nextId m) = None" by (rule fresh_id) simp
  note started = startWorker_fresh [OF fresh assms(3)]
  from assms(2) have succ: "unat (nextId m') = unat (nextId m) + 1"
    using started by (simp add: unat_next)
  from assms(1) have "list_all (\<lambda>(k, info). unat k < unat (nextId m')) (threads m)"
    unfolding ids_below_counter_def list_all_iff using succ by force
  then show ?thesis
    unfolding ids_below_counter_def using started succ
    by (auto intro!: list_all_update)
qed

lemma ids_below_counter_new: "ids_below_counter (new_ThreadManager limit)"
  by (simp add: ids_below_counter_def new_ThreadManager_def)

lemma ids_below_counter_createThreadWithWorker:
  assumes "ids_below_counter m" and "unat (nextId m) < 2 ^ 64 - 2"
  shows "ids_below_counter (snd (createThreadWithWorker given nm m))"
proof (cases "given = None \<or> at_ceiling m")
  case True
  with assms show ?thesis by (auto simp: createThreadWithWorker_def split: option.splits)
next
  case False
  then obtain w where w: "given = Some w" by auto
  obtain nm' m1 where named: "auto_name (getType w) nm m = (nm', m1)"
    by (cases "auto_name (getType w) nm m")
  with assms have m1: "ids_below_counter m1" "unat (nextId m1) < 2 ^ 64 - 1"
    by (auto simp: auto_name_def unat_next split: if_splits
        intro: ids_below_counter_mono [of m])
  obtain r m' where started: "startWorker w nm' m1 = (r, m')" by (cases "startWorker w nm' m1")
  from ids_below_counter_started [OF m1 started] False w named started
  show ?thesis by (simp add: createThreadWithWorker_def)
qed

lemma ids_below_counter_createThread:
  assumes "ids_below_counter m" and "unat (nextId m) < 2 ^ 64 - 2"
  shows "ids_below_counter (snd (createThread type nm m))"
proof (cases "map_of (factories m) type")
  case None
  with assms show ?thesis by (simp add: createThread_def)
next
  case (Some factory)
  let ?m1 = "m\<lparr>factories := AList.update type (snd (createWorker factory)) (factories m)\<rparr>"
  from assms have m1: "ids_below_counter ?m1" by (simp add: ids_below_counter_def)
  show ?thesis
  proof (cases "at_ceiling m \<or> fst (createWorker factory) = None")
    case True
    with assms Some m1 show ?thesis
      by (auto simp: createThread_def Let_def split: prod.splits option.splits)
  next
    case False
    then obtain w where w: "fst (createWorker factory) = Some w" by auto
    obtain nm' m2 where named: "auto_name type nm ?m1 = (nm', m2)"
      by (cases "auto_name type nm ?m1")
    with assms m1 have m2: "ids_below_counter m2" "unat (nextId m2) < 2 ^ 64 - 1"
      by (auto simp: auto_name_def unat_next split: if_splits
          intro: ids_below_counter_mono [of ?m1])
    obtain r m' where started: "startWorker w nm' m2 = (r, m')" by (cases "startWorker w nm' m2")
    from ids_below_counter_started [OF m2 started] False Some w named started
    show ?thesis by (auto simp: createThread_def Let_def split: prod.splits)
  qed
qed

lemma ids_below_counter_thread_step:
  "ids_below_counter m \<Longrightarrow> ids_below_counter (thread_step k m)"
proof -
  assume inv: "ids_below_counter m"
  have "list_all (\<lambda>(k, info). unat k < unat (nextId m)) (AList.update k info' (threads m))"
    if "map_of (threads m) k = Some info" for info info'
  proof -
    from that have "(k, info) \<in> set (threads m)" by (rule map_of_SomeD)
    with inv have "unat k < unat (nextId m)" by (auto simp: ids_below_counter_def list_all_iff)
    with inv show ?thesis by (auto simp: ids_below_counter_def intro!: list_all_update)
  qed
  with inv show ?thesis
    by (auto simp: thread_step_def ids_below_counter_def split: option.splits prod.splits)
qed

lemma ids_below_counter_entries:
  assumes "ids_below_counter m" and "fst ` set (threads m') \<subseteq> fst ` set (threads m)"
      and "nextId m' = nextId m"
  shows "ids_below_counter m'"
  using assms unfolding ids_below_counter_def list_all_iff by force

lemma ids_below_counter_addFactory:
  "ids_below_counter m \<Longrightarrow> ids_below_counter (snd (addFactory factory type m))"
  by (simp add: addFactory_def ids_below_counter_def)

lemma update_fst: "fst ` set (AList.update k v xs) = insert k (fst ` set xs)"
  by (induction xs) auto

lemma update_present:
  "map_of xs k = Some v \<Longrightarrow> fst ` set (AList.update k v' xs) = fst ` set xs"
  using dom_map_of_conv_image_fst [of xs] by (auto simp: update_fst)

lemma ids_below_counter_pauseThread:
  "ids_below_counter m \<Longrightarrow> ids_below_counter (snd (pauseThread k m))"
  by (rule ids_below_counter_entries [of m])
     (auto simp: pauseThread_def update_present split: option.splits)

lemma ids_below_counter_resumeThread:
  "ids_below_counter m \<Longrightarrow> ids_below_counter (snd (resumeThread k m))"
  by (rule ids_below_counter_entries [of m])
     (auto simp: resumeThread_def update_present split: option.splits)

lemma ids_below_counter_stopAll: "ids_below_counter m \<Longrightarrow> ids_below_counter (stopAll m)"
  by (rule ids_below_counter_entries [of m]) (force simp: stopAll_def)+

lemma stopThread_onStop_keys:
  "fst ` set (threads (stopThread_onStop k m)) = fst ` set (threads m)"
  by (simp add: stopThread_onStop_def update_present split: option.splits)

lemma stopThread_join_keys:
  assumes "stopThread_join k m = Some (r, m')"
  shows "fst ` set (threads m') = fst ` set (threads m)"
proof (cases "map_of (threads m) k")
  case None
  with assms show ?thesis by (auto simp: stopThread_join_def)
next
  case (Some info)
  with assms have "m' = m \<or> m' = m\<lparr>threads := AList.update k (info\<lparr>thread := Some False\<rparr>) (threads m)\<rparr>"
    by (auto simp: stopThread_join_def split: if_splits)
  then show ?thesis
    using update_present [OF Some] by (elim disjE) simp_all
qed

lemma ids_below_counter_stopThread:
  assumes "ids_below_counter m" and "stopThread k m = Some (r, m')"
  shows "ids_below_counter m'"
  using assms(1)
proof (rule ids_below_counter_entries)
  show "fst ` set (threads m') \<subseteq> fst ` set (threads m)"
    using assms(2) stopThread_join_keys [of k "stopThread_onStop k m" r m']
    by (auto simp: stopThread_def stopThread_onStop_keys split: option.splits)
  show "nextId m' = nextId m"
    using assms(2)
    by (auto simp: stopThread_def stopThread_onStop_def stopThread_join_def
        split: option.splits if_splits)
qed

lemma cleanup_entries_kept: "cleanup_entries sp xs = Some kept \<Longrightarrow> set kept \<subseteq> set xs"
proof (induction xs arbitrary: kept)
  case Nil
  then show ?case by simp
next
  case (Cons x xs)
  obtain k info where x: "x = (k, info)" by (cases x)
  from Cons.prems obtain z where z: "cleanup_entries sp xs = Some z"
    and kept: "kept = z \<or> kept = (k, info) # z"
    unfolding x by (auto split: if_splits option.splits simp: Let_def)
  from Cons.IH [OF z] kept show ?case unfolding x by auto
qed

lemma ids_below_counter_waitForAll:
  assumes "ids_below_counter m" and "waitForAll m = Some m'"
  shows "ids_below_counter m'"
  using assms(1)
proof (rule ids_below_counter_entries)
  from assms(2) obtain kept where "cleanup_entries (spawned m) (threads m) = Some kept"
    and m': "m' = m\<lparr>threads := kept\<rparr>"
    by (auto simp: waitForAll_def cleanupFinishedThreadsUnsafe_def split: if_splits)
  then have "set kept \<subseteq> set (threads m)" by (auto dest: cleanup_entries_kept)
  with m' show "fst ` set (threads m') \<subseteq> fst ` set (threads m)" by auto
  from m' show "nextId m' = nextId m" by simp
qed




section \<open>The manager's operations as actions on an entry\<close>

lemma thread_step_entry:
  assumes "map_of (threads m) k = Some info" and "map_of (spawned m) k = Some p"
  shows "map_of (threads (thread_step k m)) k = Some (snd (act ThreadAction (p, info))) \<and>
         map_of (spawned (thread_step k m)) k = Some (fst (act ThreadAction (p, info)))"
  using assms by (auto simp: thread_step_def update_conv' split: prod.splits)

lemma pauseThread_entry:
  assumes "map_of (threads m) k = Some info"
  shows "map_of (threads (snd (pauseThread k m))) k = Some info \<or>
         map_of (threads (snd (pauseThread k m))) k = Some (snd (act CallOnPause (p, info)))"
  using assms by (simp add: pauseThread_def update_conv')

lemma resumeThread_entry:
  assumes "map_of (threads m) k = Some info"
  shows "map_of (threads (snd (resumeThread k m))) k = Some info \<or>
         map_of (threads (snd (resumeThread k m))) k = Some (snd (act CallOnResume (p, info)))"
  using assms by (simp add: resumeThread_def update_conv')

lemma stopThread_onStop_entry:
  assumes "map_of (threads m) k = Some info"
  shows "map_of (threads (stopThread_onStop k m)) k = Some (snd (act CallOnStop (p, info)))"
  using assms by (simp add: stopThread_onStop_def update_conv')

lemma stopAll_entries:
  "map_of (map (\<lambda>(k, info). (k, info\<lparr>worker := onStop (worker info)\<rparr>)) xs) k =
     map_option (\<lambda>info. info\<lparr>worker := onStop (worker info)\<rparr>) (map_of xs k)"
  by (induction xs) auto

lemma stopAll_entry:
  assumes "map_of (threads m) k = Some info"
  shows "map_of (threads (stopAll m)) k = Some (snd (act CallOnStop (p, info)))"
  using assms by (simp add: stopAll_def stopAll_entries)

lemma startWorker_spawn_registry:
  "threads (snd (startWorker_spawn w nm m)) = threads m \<and>
   map_of (spawned (snd (startWorker_spawn w nm m))) (fst (fst (startWorker_spawn w nm m))) =
     Some Find"
  by (simp add: startWorker_spawn_def Let_def update_conv')

lemma waitForAll_empty: "threads m = [] \<Longrightarrow> waitForAll m = Some m"
  by (simp add: waitForAll_def allThreadsFinished_def cleanupFinishedThreadsUnsafe_def)

text \<open>
  \<^verbatim>\<open>resumeThread\<close> never succeeds right after a \<^verbatim>\<open>pauseThread\<close> that succeeded; and a
  thread that has just been started does not count for the predicate of \<^verbatim>\<open>waitForAll\<close>.
\<close>

lemma resume_after_pause_fails:
  "pauseThread k m = (True, m') \<Longrightarrow> resumeThread k m' = (False, m')"
  by (auto simp: pauseThread_def resumeThread_def isRunning_def isPaused_def onPause_def
      update_conv' split: option.splits if_splits)

lemma created_not_running:
  assumes "allThreadsFinished m"
  shows "allThreadsFinished (snd (startWorker w nm m))"
proof (cases "map_of (threads m) (nextId m)")
  case None
  with assms show ?thesis
    by (simp add: allThreadsFinished_def startWorker_def startWorker_spawn_def
        startWorker_store_def Let_def list_all_update)
next
  case (Some old)
  then have "(nextId m, old) \<in> set (threads m)" by (rule map_of_SomeD)
  with assms have "\<not> running old" by (auto simp: allThreadsFinished_def list_all_iff)
  with assms Some show ?thesis
    by (simp add: allThreadsFinished_def startWorker_def startWorker_spawn_def
        startWorker_store_def Let_def list_all_update)
qed

section \<open>What the code does in the scenarios\<close>

text \<open>
  Claim C1 (not what the code does): the callback of a \<^verbatim>\<open>MonitorWorker\<close> throws a
  \<^verbatim>\<open>std::exception\<close> in the first iteration. The exception leaves \<^verbatim>\<open>run()\<close> before its
  \<^verbatim>\<open>setState(ThreadState::FINISHED)\<close>; the handler of the thread's lambda passes the text to
  \<^verbatim>\<open>onError\<close> and the lambda clears \<open>running\<close> and returns. After the eleven actions of the
  thread the worker is still \<open>RUNNING\<close>, with \<open>running\<close> false and the thread gone.
\<close>

theorem monitor_fault_leaves_worker_running:
  "registry monitor_created = [(1, STOPPED, False)] \<and>
   spawned monitor_created = [(1, Find)] \<and>
   registry ((thread_step 1 ^^ 11) monitor_created) = [(1, RUNNING, False)] \<and>
   map (\<lambda>(k, info). errors (worker info)) (threads ((thread_step 1 ^^ 11) monitor_created)) =
     [[''check failed'']] \<and>
   spawned ((thread_step 1 ^^ 11) monitor_created) = [(1, Exited)]"
  by (simp add: eval_nat_numeral monitor_created_def failing_monitor_def new_MonitorWorker_def
      registry_def getState_def new_ThreadManager_def new_IThreadWorker_def
      createThreadWithWorker_def at_ceiling_def auto_name_def startWorker_def startWorker_spawn_def
      startWorker_store_def onInitialize_def Let_def
      thread_step_def run_def onStart_def setState_def onError_def in_shouldContinue_def
      shouldContinue_poll_def unguarded_def invoke_def)

text \<open>
  For comparison, \<^verbatim>\<open>TaskWorker::run\<close> catches what its task throws, calls \<^verbatim>\<open>onError\<close>
  itself and goes on to \<^verbatim>\<open>setState(ThreadState::FINISHED)\<close>.
\<close>

lemma task_fault_reaches_finished:
  "registry ((thread_step 1 ^^ 9) task_created) = [(1, FINISHED, False)] \<and>
   map (\<lambda>(k, info). errors (worker info)) (threads ((thread_step 1 ^^ 9) task_created)) =
     [[''Task execution failed: disk full'']] \<and>
   spawned ((thread_step 1 ^^ 9) task_created) = [(1, Exited)]"
  by (simp add: eval_nat_numeral task_created_def failing_task_def new_TaskWorker_def
      registry_def getState_def new_ThreadManager_def new_IThreadWorker_def
      createThreadWithWorker_def at_ceiling_def auto_name_def startWorker_def startWorker_spawn_def
      startWorker_store_def onInitialize_def Let_def
      thread_step_def run_def onStart_def setState_def onError_def)


text \<open>
  Claim C3 (not what the code does): a \<^verbatim>\<open>LoopWorker\<close> is \<open>RUNNING\<close>, in its second
  iteration. \<^verbatim>\<open>pauseThread\<close> returns true and the worker is still \<open>RUNNING\<close> (no class sets
  the pause flag or the state in \<^verbatim>\<open>onPause\<close>); \<^verbatim>\<open>resumeThread\<close>, called next, finds the
  worker not \<open>PAUSED\<close> and returns false.
\<close>

theorem pause_then_resume_fails:
  "registry loop_running = [(1, RUNNING, True)] \<and>
   fst (pauseThread 1 loop_running) = True \<and>
   registry (snd (pauseThread 1 loop_running)) = [(1, RUNNING, True)] \<and>
   map (\<lambda>(k, info). flags (worker info)) (threads (snd (pauseThread 1 loop_running))) =
     [(False, False)] \<and>
   fst (resumeThread 1 (snd (pauseThread 1 loop_running))) = False"
  by (simp add: eval_nat_numeral loop_running_def loop_created_def new_LoopWorker_def
      registry_def getState_def new_ThreadManager_def new_IThreadWorker_def
      createThreadWithWorker_def at_ceiling_def auto_name_def startWorker_def startWorker_spawn_def
      startWorker_store_def onInitialize_def Let_def
      thread_step_def run_def onStart_def setState_def in_shouldContinue_def shouldContinue_poll_def
      unguarded_def guarded_def invoke_def invoke_once_def pauseThread_def resumeThread_def
      isRunning_def isPaused_def onPause_def flags_def)

text \<open>
  Claim C5 (not what the code does): \<^verbatim>\<open>startWorker\<close> creates the thread before it stores
  the entry. When the thread has been created the registry has no entry under the new id;
  a thread that performs its \<^verbatim>\<open>find\<close> then finds nothing and returns; the entry stored
  afterwards keeps a worker that is \<open>STOPPED\<close> and that no thread will run.
\<close>

theorem thread_created_before_entry_stored:
  "fst (fst job_spawned) = 1 \<and>
   spawned (snd job_spawned) = [(1, Find)] \<and>
   registry (snd job_spawned) = [] \<and>
   spawned job_looked_up = [(1, Exited)] \<and>
   fst job_stored = 1 \<and>
   registry (snd job_stored) = [(1, STOPPED, False)] \<and>
   spawned (snd job_stored) = [(1, Exited)] \<and>
   registry ((thread_step 1 ^^ 5) (snd job_stored)) = [(1, STOPPED, False)]"
  by (simp add: eval_nat_numeral job_spawned_def job_looked_up_def job_stored_def job_def
      new_TaskWorker_def registry_def getState_def new_ThreadManager_def new_IThreadWorker_def
      startWorker_spawn_def startWorker_store_def onInitialize_def Let_def thread_step_def)

text \<open>
  Claim C6 (not what the code does): \<^verbatim>\<open>waitForAll\<close> is called when
  \<^verbatim>\<open>createThreadWithWorker\<close> has returned and the new thread has not yet stored
  \<open>running\<close>. No entry has \<open>running\<close> set, so the call returns, with the worker \<open>STOPPED\<close>
  and still registered. (With no registered thread it returns at once, as claimed.)
\<close>

theorem waitForAll_returns_before_worker_finished:
  "registry job_created = [(1, STOPPED, False)] \<and>
   spawned job_created = [(1, Find)] \<and>
   allThreadsFinished job_created \<and>
   map_option registry (waitForAll job_created) = Some [(1, STOPPED, False)] \<and>
   waitForAll (new_ThreadManager 0) = Some (new_ThreadManager 0)"
  by (simp add: job_created_def job_def new_TaskWorker_def registry_def getState_def
      new_ThreadManager_def new_IThreadWorker_def createThreadWithWorker_def at_ceiling_def
      auto_name_def startWorker_def startWorker_spawn_def startWorker_store_def onInitialize_def
      Let_def waitForAll_def allThreadsFinished_def cleanupFinishedThreadsUnsafe_def
      isFinished_def)

text \<open>
  \<^verbatim>\<open>waitForAll\<close> also returns when the thread of the monitor whose callback throws is gone,
  with that worker \<open>RUNNING\<close>.
\<close>

lemma waitForAll_returns_after_fault:
  "map_option registry (waitForAll ((thread_step 1 ^^ 11) monitor_created)) =
     Some [(1, RUNNING, False)]"
  by (simp add: eval_nat_numeral monitor_created_def failing_monitor_def new_MonitorWorker_def
      registry_def getState_def new_ThreadManager_def new_IThreadWorker_def
      createThreadWithWorker_def at_ceiling_def auto_name_def startWorker_def startWorker_spawn_def
      startWorker_store_def onInitialize_def Let_def
      thread_step_def run_def onStart_def setState_def onError_def in_shouldContinue_def
      shouldContinue_poll_def unguarded_def invoke_def waitForAll_def allThreadsFinished_def
      cleanupFinishedThreadsUnsafe_def isFinished_def)

end
